theory Spec2Isabelle
  imports Main "HOL-Library.Char_ord" "HOL-Library.List_Lexorder"
begin

section \<open>Strings as the browser uses them\<close>

text \<open>
  A Python \<open>str\<close> is modelled as a \<open>string\<close> whose characters are the code points
  below 256; characters beyond that range are outside the model.  The functions below are
  the \<open>str\<close> methods that \<open>browse_hdf5\<close> calls on a command line: \<open>strip()\<close>,
  \<open>split()\<close>, \<open>lower()\<close> and \<open>" ".join(args)\<close>, and \<open>split('/')\<close>, which
  the storage library applies to an item name.
\<close>

definition isspace :: "char \<Rightarrow> bool" where
  "isspace c = (c \<in> set [CHR 0x09, CHR 0x0A, CHR 0x0B, CHR 0x0C, CHR 0x0D,
                          CHR 0x1C, CHR 0x1D, CHR 0x1E, CHR 0x1F, CHR 0x20,
                          CHR 0x85, CHR 0xA0])"

definition strip :: "string \<Rightarrow> string" where
  "strip s = rev (dropWhile isspace (rev (dropWhile isspace s)))"

text \<open>\<open>split_ws_aux w s\<close>: the words of \<open>s\<close>, where \<open>w\<close> is the word read so far.\<close>

fun split_ws_aux :: "string \<Rightarrow> string \<Rightarrow> string list" where
  "split_ws_aux w [] = (if w = [] then [] else [w])"
| "split_ws_aux w (c # cs) =
     (if isspace c
      then (if w = [] then split_ws_aux [] cs else w # split_ws_aux [] cs)
      else split_ws_aux (w @ [c]) cs)"

definition split_ws :: "string \<Rightarrow> string list" where
  "split_ws s = split_ws_aux [] s"

definition lower_char :: "char \<Rightarrow> char" where
  "lower_char c =
     (let n = (of_char c :: nat)
      in if (65 \<le> n \<and> n \<le> 90) \<or> (192 \<le> n \<and> n \<le> 222 \<and> n \<noteq> 215)
         then char_of (n + 32) else c)"

definition lower :: "string \<Rightarrow> string" where
  "lower s = map lower_char s"

fun join_sp :: "string list \<Rightarrow> string" where
  "join_sp [] = []"
| "join_sp [w] = w"
| "join_sp (w # ws) = w @ '' '' @ join_sp ws"

text \<open>\<open>s.split(sep)\<close> with a one-character separator: never the empty list.\<close>

fun split_sep :: "char \<Rightarrow> string \<Rightarrow> string list" where
  "split_sep sep [] = [[]]"
| "split_sep sep (c # cs) =
     (if c = sep then [] # split_sep sep cs
      else (case split_sep sep cs of
              [] \<Rightarrow> [[c]]
            | w # ws \<Rightarrow> (c # w) # ws))"

section \<open>The open container\<close>

text \<open>
  The exceptions that command processing can meet.  \<open>print_dataset\<close> distinguishes
  \<open>TypeError\<close> from every other \<open>Exception\<close> (lines 79 to 83); \<open>KeyError\<close> is what
  indexing a group with an absent name raises, \<open>AttributeError\<close> what reading
  \<open>shape\<close> of a group raises, \<open>IndexError\<close> what \<open>parts[0]\<close> raises on an empty list.
\<close>

datatype exc =
    TypeError string
  | KeyError string
  | AttributeError
  | IndexError
  | OtherException string

text \<open>
  What \<open>dataset[()]\<close> returns: a scalar or a rectangular array, as nested sequences of
  elements (each element already in its printed form).
\<close>

datatype ndarray = Scalar string | Array "ndarray list"

text \<open>
  The attributes of an item, in the order \<open>attrs.items()\<close> yields them: the name, and
  what reading the value gives, its printed form or the exception the read raises.
\<close>

type_synonym attrs = "(string \<times> (exc + string)) list"

text \<open>
  A dataset as \<open>print_ls\<close> and \<open>print_dataset\<close> read it.  Reading \<open>shape\<close> or
  \<open>dtype\<close> may raise (\<open>print_ls\<close> guards both, lines 47 to 51), and so may reading
  the data, \<open>dataset[()]\<close> (lines 70 to 83).  The container is opened read-only, so
  reading twice gives the same result twice.
\<close>

record dataset =
  ds_shape :: "exc + nat list"
  ds_dtype :: "exc + string"
  ds_chunks :: "nat list option"
  ds_compression :: "string option"
  ds_attrs :: attrs
  ds_read :: "exc + ndarray"

text \<open>
  An item of the hierarchy is a group (its attributes and its named members, in the
  order the library iterates them), a dataset, or an object that is neither an
  \<open>h5py.Group\<close> nor an \<open>h5py.Dataset\<close>, such as a committed datatype, of which the
  browser reads the attributes only.  The file is its root group.
\<close>

datatype node =
    GroupN attrs "(string \<times> node) list"
  | DatasetN dataset
  | OtherN attrs

datatype h5file = File attrs "(string \<times> node) list"

fun root_node :: "h5file \<Rightarrow> node" where
  "root_node (File a cs) = GroupN a cs"

text \<open>\<open>isinstance(item, h5py.Group)\<close> and \<open>isinstance(item, h5py.Dataset)\<close>.\<close>

fun is_group :: "node \<Rightarrow> bool" where
  "is_group (GroupN a cs) = True"
| "is_group (DatasetN d) = False"
| "is_group (OtherN a) = False"

fun is_dataset :: "node \<Rightarrow> bool" where
  "is_dataset (GroupN a cs) = False"
| "is_dataset (DatasetN d) = True"
| "is_dataset (OtherN a) = False"

fun items :: "node \<Rightarrow> (string \<times> node) list" where
  "items (GroupN a cs) = cs"
| "items (DatasetN d) = []"
| "items (OtherN a) = []"

fun node_attrs :: "node \<Rightarrow> attrs" where
  "node_attrs (GroupN a cs) = a"
| "node_attrs (DatasetN d) = ds_attrs d"
| "node_attrs (OtherN a) = a"

text \<open>The member of a group bound to exactly this name.\<close>

definition child :: "node \<Rightarrow> string \<Rightarrow> node option" where
  "child n nm = map_of (items n) nm"

text \<open>
  A group object is its location, the member names from the root down (\<open>[]\<close> is
  the root), together with the node found there.  \<open>h5_name\<close> is the object's
  \<open>.name\<close>; \<open>h5_root f\<close> is \<open>f['/']\<close>; \<open>h5_parent\<close> is \<open>.parent\<close>, which the
  library computes by opening the directory part of the name from the root.
\<close>

type_synonym path = "string list"

type_synonym obj = "path \<times> node"

fun node_at :: "node \<Rightarrow> path \<Rightarrow> node option" where
  "node_at n [] = Some n"
| "node_at n (c # cs) = (case child n c of None \<Rightarrow> None | Some m \<Rightarrow> node_at m cs)"

definition h5_name :: "path \<Rightarrow> string" where
  "h5_name p = (if p = [] then ''/'' else concat (map (\<lambda>c. ''/'' @ c) p))"

definition h5_root :: "h5file \<Rightarrow> obj" where
  "h5_root f = ([], root_node f)"

definition h5_parent :: "h5file \<Rightarrow> obj \<Rightarrow> exc + obj" where
  "h5_parent f g =
     (case node_at (root_node f) (butlast (fst g)) of
        None \<Rightarrow> Inl (KeyError (h5_name (butlast (fst g))))
      | Some n \<Rightarrow> Inr (butlast (fst g), n))"

text \<open>
  Membership test and indexing of a group, \<open>name in group\<close> and \<open>group[name]\<close>, are
  the storage library's (h5py's \<open>Group.__contains__\<close> and \<open>Group.__getitem__\<close>): the
  browser hands them the name unchanged.  The library documents for both that the name
  may be a relative or an absolute path.  It splits the name at \<open>/\<close>, starts at the root
  when the name begins with \<open>/\<close> and at the group otherwise, ignores empty components,
  lets \<open>.\<close> stand for the group reached so far, and follows the other components one
  member at a time; every component but the last must be a group.  The empty name is in
  no group.  \<open>h5_walk p n cs\<close> follows the components \<open>cs\<close> from the node \<open>n\<close> at
  location \<open>p\<close>.
\<close>

fun h5_walk :: "path \<Rightarrow> node \<Rightarrow> string list \<Rightarrow> obj option" where
  "h5_walk p n [] = Some (p, n)"
| "h5_walk p n (c # cs) =
     (if c = ''.'' then h5_walk p n cs
      else (case child n c of
              None \<Rightarrow> None
            | Some m \<Rightarrow>
                if cs = [] then Some (p @ [c], m)
                else if is_group m then h5_walk (p @ [c]) m cs
                else None))"

definition h5_lookup :: "h5file \<Rightarrow> obj \<Rightarrow> string \<Rightarrow> obj option" where
  "h5_lookup f g name =
     (if name = [] then None
      else
        let parts = split_sep CHR ''/'' name;
            start = (if hd parts = [] then h5_root f else g);
            comps = filter (\<lambda>c. c \<noteq> []) parts
        in h5_walk (fst start) (snd start) comps)"

definition h5_contains :: "h5file \<Rightarrow> obj \<Rightarrow> string \<Rightarrow> bool" where
  "h5_contains f g name = (h5_lookup f g name \<noteq> None)"

definition h5_getitem :: "h5file \<Rightarrow> obj \<Rightarrow> string \<Rightarrow> exc + obj" where
  "h5_getitem f g name =
     (case h5_lookup f g name of
        None \<Rightarrow> Inl (KeyError name)
      | Some r \<Rightarrow> Inr r)"

section \<open>What the browser prints\<close>

text \<open>
  How \<open>print(data)\<close> shows an array under
  \<open>np.printoptions(threshold=100, edgeitems=10)\<close> (line 76): an element, a sequence
  of entries along one axis, or the marker \<open>...\<close> that stands for the entries left out.
  The array printer summarises only when the array has more elements than the threshold,
  and then only along an axis longer than twice the edge count, where it keeps that many
  leading and trailing entries around one marker.
\<close>

datatype repr = Elem string | Dots | Seq "repr list"

fun nd_size :: "ndarray \<Rightarrow> nat" where
  "nd_size (Scalar x) = 1"
| "nd_size (Array xs) = sum_list (map nd_size xs)"

function array_repr :: "bool \<Rightarrow> nat \<Rightarrow> ndarray \<Rightarrow> repr" where
  "array_repr summ e (Scalar x) = Elem x"
| "array_repr summ e (Array xs) =
     (if summ \<and> 2 * e < length xs
      then Seq (map (array_repr summ e) (take e xs) @ [Dots] @
                map (array_repr summ e) (drop (length xs - e) xs))
      else Seq (map (array_repr summ e) xs))"
  by pat_completeness auto
termination
proof (relation "measure (\<lambda>(summ, e, a). size a)")
  show "wf (measure (\<lambda>(summ, e, a). size a))"
    by simp
next
  fix summ :: bool and e :: nat and xs :: "ndarray list" and x :: ndarray
  assume "x \<in> set (take e xs)"
  then have "x \<in> set xs"
    by (rule in_set_takeD)
  then have "size x \<le> size_list size xs"
    by (rule size_list_estimation') simp
  then show "((summ, e, x), (summ, e, Array xs)) \<in> measure (\<lambda>(summ, e, a). size a)"
    by simp
next
  fix summ :: bool and e :: nat and xs :: "ndarray list" and x :: ndarray
  assume "x \<in> set (drop (length xs - e) xs)"
  then have "x \<in> set xs"
    by (rule in_set_dropD)
  then have "size x \<le> size_list size xs"
    by (rule size_list_estimation') simp
  then show "((summ, e, x), (summ, e, Array xs)) \<in> measure (\<lambda>(summ, e, a). size a)"
    by simp
next
  fix summ :: bool and e :: nat and xs :: "ndarray list" and x :: ndarray
  assume "x \<in> set xs"
  then have "size x \<le> size_list size xs"
    by (rule size_list_estimation') simp
  then show "((summ, e, x), (summ, e, Array xs)) \<in> measure (\<lambda>(summ, e, a). size a)"
    by simp
qed

definition threshold :: nat where
  "threshold = 100"

definition edgeitems :: nat where
  "edgeitems = 10"

definition preview :: "ndarray \<Rightarrow> repr" where
  "preview a = array_repr (threshold < nd_size a) edgeitems a"

text \<open>
  Outside the \<open>with\<close> block the printer has its default options again, a threshold of
  1000 elements and 3 edge entries; \<open>print(dataset[()])\<close> on line 81 runs there.
\<close>

definition default_repr :: "ndarray \<Rightarrow> repr" where
  "default_repr a = array_repr (1000 < nd_size a) 3 a"

text \<open>One constructor for each \<open>print\<close> call of the source, with the values it shows.\<close>

datatype out =
    Prompt string string
  | OpenFailed string exc
  | Opened string
  | HelpHint
  | HelpText
  | EofMsg
  | InterruptMsg
  | ExitMsg
  | LsHeader string
  | LsEmpty
  | LsGroup string
  | LsDataset string "nat list" string
  | LsUnreadable string exc
  | PwdLine string
  | CdUsage
  | AtRoot
  | CdIsDataset string
  | CdNotFound string string
  | CatUsage
  | CatIsGroup string
  | CatNotFound string string
  | DsHeader string
  | DsShape "nat list"
  | DsDtype string
  | DsSize nat
  | DsChunks "nat list option"
  | DsCompression "string option"
  | DsAttrsHeader
  | DsAttr string string
  | DsDataHeader
  | DsData repr
  | DsUnavailable exc
  | DsEnd
  | AttrsNotFound string string
  | AttrsHeader string
  | AttrsNone
  | AttrLine string string
  | AttrsFooter
  | UnknownCmd string

text \<open>The lines that the source prints with the prefix that marks an error.\<close>

definition is_error :: "out \<Rightarrow> bool" where
  "is_error x =
     (case x of
        OpenFailed p e \<Rightarrow> True
      | CdUsage \<Rightarrow> True
      | CdIsDataset t \<Rightarrow> True
      | CdNotFound g t \<Rightarrow> True
      | CatUsage \<Rightarrow> True
      | CatIsGroup t \<Rightarrow> True
      | CatNotFound g t \<Rightarrow> True
      | AttrsNotFound g t \<Rightarrow> True
      | UnknownCmd c \<Rightarrow> True
      | _ \<Rightarrow> False)"

section \<open>The printers\<close>

text \<open>
  \<open>print_ls\<close> (lines 24 to 51).  The loop over \<open>group.items()\<close> appends the name of
  a group to \<open>groups\<close> and the name of a dataset to \<open>datasets\<close>, in iteration order;
  it has no \<open>else\<close>, so a member that is neither goes to neither list.
\<close>

definition ls_groups :: "node \<Rightarrow> string list" where
  "ls_groups n = map fst (filter (\<lambda>(nm, it). is_group it) (items n))"

definition ls_datasets :: "node \<Rightarrow> string list" where
  "ls_datasets n = map fst (filter (\<lambda>(nm, it). is_dataset it) (items n))"

text \<open>A member that the loop puts on one of the two lists.\<close>

definition listed :: "string \<times> node \<Rightarrow> bool" where
  "listed c = (is_group (snd c) \<or> is_dataset (snd c))"

definition ls_dataset_line :: "h5file \<Rightarrow> obj \<Rightarrow> string \<Rightarrow> out" where
  "ls_dataset_line f g d =
     (case h5_getitem f g d of
        Inl e \<Rightarrow> LsUnreadable d e
      | Inr item \<Rightarrow>
          (case snd item of
             DatasetN ds \<Rightarrow>
               (case ds_shape ds of
                  Inl e \<Rightarrow> LsUnreadable d e
                | Inr sh \<Rightarrow>
                    (case ds_dtype ds of
                       Inl e \<Rightarrow> LsUnreadable d e
                     | Inr dt \<Rightarrow> LsDataset d sh dt))
           | _ \<Rightarrow> LsUnreadable d AttributeError))"

definition print_ls :: "h5file \<Rightarrow> obj \<Rightarrow> out list" where
  "print_ls f g =
     (let groups = ls_groups (snd g);
          datasets = ls_datasets (snd g)
      in if groups = [] \<and> datasets = []
         then [LsHeader (h5_name (fst g)), LsEmpty]
         else LsHeader (h5_name (fst g))
              # map LsGroup (sort groups)
              @ map (ls_dataset_line f g) (sort datasets))"

text \<open>
  The loops over \<open>attrs.items()\<close> (lines 65 to 66 and 101 to 102) print one line for
  each attribute; no \<open>try\<close> is around them, so the first value that cannot be read
  ends the loop with its exception, after the lines of the attributes before it.
\<close>

fun attr_loop :: "(string \<Rightarrow> string \<Rightarrow> out) \<Rightarrow> attrs \<Rightarrow> out list \<times> exc option" where
  "attr_loop line [] = ([], None)"
| "attr_loop line ((k, v) # rest) =
     (case v of
        Inl e \<Rightarrow> ([], Some e)
      | Inr x \<Rightarrow> (line k x # fst (attr_loop line rest), snd (attr_loop line rest)))"

text \<open>
  \<open>print_dataset\<close> (lines 53 to 84): the printed lines, and the exception that leaves
  the function, if any.  \<open>on_type_error\<close> is the body of the \<open>except TypeError\<close>
  clause, which reads the data again, outside any \<open>try\<close>.
\<close>

definition on_type_error :: "dataset \<Rightarrow> out list \<times> exc option" where
  "on_type_error d =
     (case ds_read d of
        Inr data \<Rightarrow> ([DsData (default_repr data)], None)
      | Inl e \<Rightarrow> ([], Some e))"

definition show_data :: "dataset \<Rightarrow> out list \<times> exc option" where
  "show_data d =
     (case ds_read d of
        Inr data \<Rightarrow> ([DsData (preview data)], None)
      | Inl (TypeError m) \<Rightarrow> on_type_error d
      | Inl e \<Rightarrow> ([DsUnavailable e], None))"

definition print_dataset :: "obj \<Rightarrow> dataset \<Rightarrow> out list \<times> exc option" where
  "print_dataset item d =
     (case ds_shape d of
        Inl e \<Rightarrow> ([DsHeader (h5_name (fst item))], Some e)
      | Inr sh \<Rightarrow>
          (case ds_dtype d of
             Inl e \<Rightarrow> ([DsHeader (h5_name (fst item)), DsShape sh], Some e)
           | Inr dt \<Rightarrow>
               let info = [DsHeader (h5_name (fst item)), DsShape sh, DsDtype dt,
                           DsSize (prod_list sh), DsChunks (ds_chunks d),
                           DsCompression (ds_compression d)];
                   listed = attr_loop DsAttr (ds_attrs d);
                   attrs = (if ds_attrs d = [] then [] else DsAttrsHeader # fst listed);
                   shown = show_data d
               in if ds_attrs d \<noteq> [] \<and> snd listed \<noteq> None
                  then (info @ attrs, snd listed)
                  else if snd shown = None
                  then (info @ attrs @ [DsDataHeader] @ fst shown @ [DsEnd], None)
                  else (info @ attrs @ [DsDataHeader] @ fst shown, snd shown)))"

text \<open>\<open>print_attrs\<close> (lines 86 to 103); \<open>if item_name\<close> is false for \<open>None\<close> and for the empty string.\<close>

definition attr_lines :: "obj \<Rightarrow> out list \<times> exc option" where
  "attr_lines target =
     (if node_attrs (snd target) = []
      then ([AttrsHeader (h5_name (fst target)), AttrsNone], None)
      else
        let listed = attr_loop AttrLine (node_attrs (snd target))
        in if snd listed = None
           then (AttrsHeader (h5_name (fst target)) # fst listed @ [AttrsFooter], None)
           else (AttrsHeader (h5_name (fst target)) # fst listed, snd listed))"

definition print_attrs :: "h5file \<Rightarrow> obj \<Rightarrow> string option \<Rightarrow> out list \<times> exc option" where
  "print_attrs f g item_name =
     (if item_name = None \<or> item_name = Some []
      then attr_lines g
      else if h5_contains f g (the item_name)
      then (case h5_getitem f g (the item_name) of
              Inl e \<Rightarrow> ([], Some e)
            | Inr target \<Rightarrow> attr_lines target)
      else ([AttrsNotFound (h5_name (fst g)) (the item_name)], None))"

section \<open>The browser loop\<close>

text \<open>
  What a command does to the loop: go on to the next prompt, leave the loop
  (\<open>break\<close>), or raise an exception that nothing in \<open>browse_hdf5\<close> catches.
\<close>

datatype control = Next | Break | Raise exc

text \<open>The \<open>cd\<close> branch (lines 155 to 182).\<close>

definition cmd_cd :: "h5file \<Rightarrow> obj \<Rightarrow> string list \<Rightarrow> out list \<times> obj \<times> control" where
  "cmd_cd f cur args =
     (if args = [] then ([CdUsage], cur, Next)
      else
        let target_path = join_sp args
        in if target_path = ''..''
           then (if h5_name (fst cur) = ''/''
                 then ([AtRoot], cur, Next)
                 else (case h5_parent f cur of
                         Inl e \<Rightarrow> ([], cur, Raise e)
                       | Inr g \<Rightarrow> ([], g, Next)))
           else if target_path = ''/''
           then ([], h5_root f, Next)
           else if h5_contains f cur target_path
           then (case h5_getitem f cur target_path of
                   Inl e \<Rightarrow> ([], cur, Raise e)
                 | Inr item \<Rightarrow>
                     if is_group (snd item) then ([], item, Next)
                     else ([CdIsDataset target_path], cur, Next))
           else ([CdNotFound (h5_name (fst cur)) target_path], cur, Next))"

text \<open>The \<open>cat\<close> / \<open>view\<close> branch (lines 184 to 197).\<close>

definition cmd_cat :: "h5file \<Rightarrow> obj \<Rightarrow> string list \<Rightarrow> out list \<times> obj \<times> control" where
  "cmd_cat f cur args =
     (if args = [] then ([CatUsage], cur, Next)
      else
        let dataset_name = join_sp args
        in if h5_contains f cur dataset_name
           then (case h5_getitem f cur dataset_name of
                   Inl e \<Rightarrow> ([], cur, Raise e)
                 | Inr item \<Rightarrow>
                     (case snd item of
                        DatasetN d \<Rightarrow>
                          (case print_dataset item d of
                             (outs, None) \<Rightarrow> (outs, cur, Next)
                           | (outs, Some e) \<Rightarrow> (outs, cur, Raise e))
                      | _ \<Rightarrow> ([CatIsGroup dataset_name], cur, Next)))
           else ([CatNotFound (h5_name (fst cur)) dataset_name], cur, Next))"

text \<open>The \<open>attrs\<close> branch (lines 199 to 201).\<close>

definition cmd_attrs :: "h5file \<Rightarrow> obj \<Rightarrow> string list \<Rightarrow> out list \<times> obj \<times> control" where
  "cmd_attrs f cur args =
     (let item_name = (case args of [] \<Rightarrow> None | a # rest \<Rightarrow> Some a)
      in case print_attrs f cur item_name of
           (outs, None) \<Rightarrow> (outs, cur, Next)
         | (outs, Some e) \<Rightarrow> (outs, cur, Raise e))"

text \<open>The chain of \<open>if\<close> / \<open>elif\<close> on the command word (lines 142 to 204).\<close>

definition dispatch :: "h5file \<Rightarrow> obj \<Rightarrow> string \<Rightarrow> string list \<Rightarrow> out list \<times> obj \<times> control" where
  "dispatch f cur cmd args =
     (if cmd \<in> set [''exit'', ''quit'', ''q''] then ([ExitMsg], cur, Break)
      else if cmd = ''help'' then ([HelpText], cur, Next)
      else if cmd = ''ls'' then (print_ls f cur, cur, Next)
      else if cmd = ''pwd'' then ([PwdLine (h5_name (fst cur))], cur, Next)
      else if cmd = ''cd'' then cmd_cd f cur args
      else if cmd \<in> set [''cat'', ''view''] then cmd_cat f cur args
      else if cmd = ''attrs'' then cmd_attrs f cur args
      else ([UnknownCmd cmd], cur, Next))"

text \<open>
  What \<open>input(prompt)\<close> gives: a line, or one of the two exceptions the loop catches.
\<close>

datatype event = Line string | EOFError | KeyboardInterrupt

text \<open>
  The session: \<open>ACTIVE\<close> inside the loop, \<open>TERMINATED\<close> once \<open>browse_hdf5\<close> has
  returned, \<open>ABORTED e\<close> when the exception \<open>e\<close> has left \<open>browse_hdf5\<close>.
  \<open>fhandle\<close> is the state of the file object \<open>f\<close>; only \<open>f.close()\<close> on line 206,
  after the loop, closes it.
\<close>

datatype status = ACTIVE | TERMINATED | ABORTED exc

datatype fstate = Open | Closed

record session =
  current_group :: obj
  printed :: "out list"
  status :: status
  fhandle :: fstate

definition say :: "out list \<Rightarrow> session \<Rightarrow> session" where
  "say outs s = s\<lparr>printed := printed s @ outs\<rparr>"

text \<open>Leaving the loop by \<open>break\<close> reaches \<open>f.close()\<close> and the function returns.\<close>

definition leave_loop :: "session \<Rightarrow> session" where
  "leave_loop s = s\<lparr>status := TERMINATED, fhandle := Closed\<rparr>"

definition after_command :: "out list \<times> obj \<times> control \<Rightarrow> session \<Rightarrow> session" where
  "after_command r s =
     (case r of (outs, g, c) \<Rightarrow>
        (case c of
           Next \<Rightarrow> (say outs s)\<lparr>current_group := g\<rparr>
         | Break \<Rightarrow> leave_loop ((say outs s)\<lparr>current_group := g\<rparr>)
         | Raise e \<Rightarrow> (say outs s)\<lparr>current_group := g, status := ABORTED e\<rparr>))"

text \<open>One turn of the \<open>while True\<close> loop (lines 120 to 204) on what \<open>input\<close> gives.\<close>

definition loop_body :: "h5file \<Rightarrow> string \<Rightarrow> session \<Rightarrow> event \<Rightarrow> session" where
  "loop_body f filename s ev =
     (let s1 = say [Prompt filename (h5_name (fst (current_group s)))] s
      in case ev of
           EOFError \<Rightarrow> leave_loop (say [EofMsg] s1)
         | KeyboardInterrupt \<Rightarrow> leave_loop (say [InterruptMsg] s1)
         | Line l \<Rightarrow>
             let command_line = strip l
             in if command_line = [] then s1
                else (case split_ws command_line of
                        [] \<Rightarrow> s1\<lparr>status := ABORTED IndexError\<rparr>
                      | w # args \<Rightarrow>
                          after_command (dispatch f (current_group s1) (lower w) args) s1))"

text \<open>The loop, on the events \<open>input\<close> gives one after the other; it stops at the first
  turn that leaves the session no longer \<open>ACTIVE\<close>.  A run that has used up its events
  and is still \<open>ACTIVE\<close> is waiting at the prompt.\<close>

fun loop :: "h5file \<Rightarrow> string \<Rightarrow> session \<Rightarrow> event list \<Rightarrow> session" where
  "loop f filename s [] = s"
| "loop f filename s (ev # evs) =
     (if status s = ACTIVE then loop f filename (loop_body f filename s ev) evs else s)"

definition start :: "h5file \<Rightarrow> string \<Rightarrow> session" where
  "start f filename =
     \<lparr>current_group = h5_root f, printed = [Opened filename, HelpHint],
      status = ACTIVE, fhandle = Open\<rparr>"

text \<open>
  \<open>browse_hdf5\<close> (lines 106 to 206).  \<open>opened\<close> is what \<open>h5py.File(filepath, 'r')\<close>
  gives and \<open>filename\<close> what \<open>os.path.basename(filepath)\<close> gives.  When the file
  cannot be opened there is no session: the function prints one line and returns.
\<close>

definition browse_hdf5 ::
  "exc + h5file \<Rightarrow> string \<Rightarrow> string \<Rightarrow> event list \<Rightarrow> out list + session" where
  "browse_hdf5 opened filepath filename evs =
     (case opened of
        Inl e \<Rightarrow> Inl [OpenFailed filepath e]
      | Inr f \<Rightarrow> Inr (loop f filename (start f filename) evs))"

section \<open>Locations, and a small container to run the browser on\<close>

text \<open>
  A group object refers to a collection of the graph when the node it carries is the node
  found at its location from the root, and that node is a group.
\<close>

definition valid_loc :: "h5file \<Rightarrow> obj \<Rightarrow> bool" where
  "valid_loc f g = (node_at (root_node f) (fst g) = Some (snd g) \<and> is_group (snd g))"

text \<open>
  A name of several member names: \<open>"/".join(cs)\<close>.  A plain member name is not
  empty, has no \<open>/\<close> in it and is not \<open>.\<close>.
\<close>

fun join_slash :: "string list \<Rightarrow> string" where
  "join_slash [] = []"
| "join_slash [c] = c"
| "join_slash (c # cs) = c @ ''/'' @ join_slash cs"

definition plain_name :: "string \<Rightarrow> bool" where
  "plain_name c = (c \<noteq> [] \<and> CHR ''/'' \<notin> set c \<and> c \<noteq> ''.'')"

text \<open>
  The container of the examples: the group \<open>g1\<close> with the dataset \<open>d1\<close> of shape
  \<open>(5,)\<close>, the group \<open>a\<close> with the empty group \<open>b\<close>, a group whose name has a
  space and that has one attribute, a dataset whose element type the library cannot
  read, and a dataset whose data the library cannot convert.
\<close>

definition ex_d1 :: dataset where
  "ex_d1 = \<lparr>ds_shape = Inr [5], ds_dtype = Inr ''int64'', ds_chunks = None, ds_compression = None,
            ds_attrs = [],
            ds_read = Inr (Array [Scalar ''1'', Scalar ''2'', Scalar ''3'', Scalar ''4'',
                                  Scalar ''5''])\<rparr>"

definition ex_bad :: dataset where
  "ex_bad = \<lparr>ds_shape = Inr [2], ds_dtype = Inr ''object'', ds_chunks = None, ds_compression = None,
             ds_attrs = [], ds_read = Inl (TypeError ''no conversion path'')\<rparr>"

definition ex_odd :: dataset where
  "ex_odd = \<lparr>ds_shape = Inr [3], ds_dtype = Inl (TypeError ''no NumPy equivalent''),
             ds_chunks = None, ds_compression = None, ds_attrs = [],
             ds_read = Inr (Array [Scalar ''7'', Scalar ''8'', Scalar ''9''])\<rparr>"

definition ex_file :: h5file where
  "ex_file = File [] [(''g1'', GroupN [] [(''d1'', DatasetN ex_d1)]),
                      (''a'', GroupN [] [(''b'', GroupN [] [])]),
                      (''my data'', GroupN [(''unit'', Inr ''m'')] []),
                      (''odd'', DatasetN ex_odd),
                      (''bad'', DatasetN ex_bad)]"

definition ex_a :: obj where
  "ex_a = ([''a''], GroupN [] [(''b'', GroupN [] [])])"

definition ex_session :: session where
  "ex_session = start ex_file ''x.h5''"

section \<open>Reading a preview\<close>

text \<open>
  The elements of an array in order, the elements a preview shows in order, and whether
  a preview has a marker.
\<close>

fun nd_elems :: "ndarray \<Rightarrow> string list" where
  "nd_elems (Scalar x) = [x]"
| "nd_elems (Array xs) = concat (map nd_elems xs)"

fun repr_elems :: "repr \<Rightarrow> string list" where
  "repr_elems (Elem x) = [x]"
| "repr_elems Dots = []"
| "repr_elems (Seq rs) = concat (map repr_elems rs)"

fun has_dots :: "repr \<Rightarrow> bool" where
  "has_dots (Elem x) = False"
| "has_dots Dots = True"
| "has_dots (Seq rs) = list_ex has_dots rs"

text \<open>An 11 by 11 array: 121 elements, and no axis longer than 20.\<close>

definition ex_grid :: ndarray where
  "ex_grid = Array (replicate 11 (Array (replicate 11 (Scalar ''0''))))"

text \<open>
  A second container: a group whose only member is a committed datatype, and a dataset
  that holds the 11 by 11 array.
\<close>

definition ex_grid_ds :: dataset where
  "ex_grid_ds = \<lparr>ds_shape = Inr [11, 11], ds_dtype = Inr ''int64'', ds_chunks = None,
                 ds_compression = None, ds_attrs = [], ds_read = Inr ex_grid\<rparr>"

definition ex_file2 :: h5file where
  "ex_file2 = File [] [(''types'', GroupN [] [(''t'', OtherN [])]),
                       (''grid'', DatasetN ex_grid_ds)]"

text \<open>The root group of the example container with its members in the opposite order.\<close>

definition ex_rev :: node where
  "ex_rev = GroupN [] [(''bad'', DatasetN ex_bad),
                      (''odd'', DatasetN ex_odd),
                      (''my data'', GroupN [(''unit'', Inr ''m'')] []),
                      (''a'', GroupN [] [(''b'', GroupN [] [])]),
                      (''g1'', GroupN [] [(''d1'', DatasetN ex_d1)])]"

section \<open>Facts about the string functions\<close>

lemma split_sep_no_sep: "sep \<notin> set s \<Longrightarrow> split_sep sep s = [s]"
  by (induction s) auto

lemma strip_blank: "list_all isspace l \<Longrightarrow> strip l = []"
proof -
  assume "list_all isspace l"
  then have "dropWhile isspace l = []"
    by (induction l) auto
  then show ?thesis
    unfolding strip_def by (simp only: rev.simps dropWhile.simps)
qed

section \<open>Facts about locations and lookup\<close>

lemma h5_name_root: "[] \<notin> set p \<Longrightarrow> (h5_name p = ''/'') = (p = [])"
  by (cases p) (auto simp: h5_name_def Cons_eq_append_conv)

lemma h5_lookup_plain:
  assumes "tok \<noteq> []" and "CHR ''/'' \<notin> set tok" and "tok \<noteq> ''.''"
  shows "h5_lookup f g tok =
           (case child (snd g) tok of None \<Rightarrow> None | Some m \<Rightarrow> Some (fst g @ [tok], m))"
  using assms by (simp add: h5_lookup_def split_sep_no_sep Let_def split: option.splits)

lemma node_at_append:
  "node_at n (p @ q) = (case node_at n p of None \<Rightarrow> None | Some m \<Rightarrow> node_at m q)"
  by (induction p arbitrary: n) (auto split: option.splits)

lemma child_is_group: "child n c = Some m \<Longrightarrow> is_group n"
  by (cases n) (auto simp: child_def)

text \<open>Following components from a node of the graph ends at a node of the graph.\<close>

lemma h5_walk_node_at:
  "node_at r p = Some n \<Longrightarrow> h5_walk p n cs = Some (p', n') \<Longrightarrow> node_at r p' = Some n'"
proof (induction p n cs arbitrary: p' n' rule: h5_walk.induct)
  case (1 p n)
  then show ?case by simp
next
  case (2 p n c cs)
  show ?case
  proof (cases "c = ''.''")
    case True
    with 2 show ?thesis by simp
  next
    case False
    with "2.prems" obtain m where m: "child n c = Some m"
      by (auto split: option.splits)
    have at: "node_at r (p @ [c]) = Some m"
      using "2.prems"(1) m by (simp add: node_at_append)
    show ?thesis
    proof (cases "cs = []")
      case True
      with "2.prems" False m at show ?thesis by simp
    next
      case ne: False
      with "2.prems" False m have g: "is_group m"
        and w: "h5_walk (p @ [c]) m cs = Some (p', n')"
        by (auto split: if_splits)
      from "2.IH"(2)[OF False m ne g at w] show ?thesis .
    qed
  qed
qed

text \<open>The location one level up holds a group.\<close>

lemma node_at_butlast:
  assumes "node_at r p = Some n" and "p \<noteq> []"
  shows "\<exists>m. node_at r (butlast p) = Some m \<and> is_group m"
proof -
  from assms(2) have p: "p = butlast p @ [last p]" by simp
  from assms(1) have "node_at r (butlast p @ [last p]) = Some n" using p by simp
  then obtain m where m: "node_at r (butlast p) = Some m" and c: "child m (last p) \<noteq> None"
    by (auto simp: node_at_append split: option.splits)
  from c have "is_group m" by (auto dest: child_is_group)
  with m show ?thesis by blast
qed

lemma split_sep_append: "sep \<notin> set a \<Longrightarrow> split_sep sep (a @ sep # b) = a # split_sep sep b"
  by (induction a) auto

lemma split_sep_join_slash:
  "cs \<noteq> [] \<Longrightarrow> list_all (\<lambda>c. CHR ''/'' \<notin> set c) cs \<Longrightarrow>
     split_sep CHR ''/'' (join_slash cs) = cs"
proof (induction cs rule: join_slash.induct)
  case 1
  then show ?case by simp
next
  case (2 c)
  then show ?case by (simp add: split_sep_no_sep)
next
  case (3 c d ds)
  then show ?case by (simp add: split_sep_append)
qed

lemma join_slash_head:
  assumes "cs \<noteq> []" and "list_all plain_name cs"
  shows "\<exists>x xs. join_slash cs = x # xs \<and> x \<noteq> CHR ''/''"
proof -
  from assms obtain c ds where cs: "cs = c # ds" and c: "plain_name c"
    by (cases cs) auto
  from c obtain x xs where "c = x # xs" and "x \<noteq> CHR ''/''"
    by (cases c) (auto simp: plain_name_def)
  with cs show ?thesis
    by (cases ds) auto
qed

lemma not_group_child: "\<not> is_group n \<Longrightarrow> child n c = None"
  by (cases n) (simp_all add: child_def)

text \<open>Following plain names is one exact member lookup for each name.\<close>

lemma h5_walk_plain:
  "list_all plain_name cs \<Longrightarrow> cs \<noteq> [] \<Longrightarrow>
     h5_walk p n cs = (case node_at n cs of None \<Rightarrow> None | Some m \<Rightarrow> Some (p @ cs, m))"
proof (induction cs arbitrary: p n)
  case Nil
  then show ?case by simp
next
  case (Cons c cs)
  from Cons.prems have rest: "list_all plain_name cs"
    by simp
  from Cons.prems have c: "c \<noteq> ''.''"
    by (simp add: plain_name_def)
  show ?case
  proof (cases "child n c")
    case None
    with c show ?thesis by simp
  next
    case (Some m)
    show ?thesis
    proof (cases "cs = []")
      case True
      with c Some show ?thesis by simp
    next
      case ne: False
      show ?thesis
      proof (cases "is_group m")
        case True
        with c Some ne Cons.IH [OF rest ne, of "p @ [c]" m] show ?thesis
          by (simp split: option.splits)
      next
        case False
        from ne obtain d ds where "cs = d # ds"
          by (cases cs) auto
        with not_group_child [OF False, of d] have "node_at m cs = None"
          by simp
        with c Some ne False show ?thesis by simp
      qed
    qed
  qed
qed

lemma h5_lookup_path:
  assumes "cs \<noteq> []" and "list_all plain_name cs"
  shows "h5_lookup f g (join_slash cs) =
           (case node_at (snd g) cs of None \<Rightarrow> None | Some m \<Rightarrow> Some (fst g @ cs, m))"
proof -
  from assms(2) have ns: "list_all (\<lambda>c. CHR ''/'' \<notin> set c) cs"
    and ne: "filter (\<lambda>c. c \<noteq> []) cs = cs"
    by (induction cs) (auto simp: plain_name_def)
  from assms have hd: "hd cs \<noteq> []"
    by (cases cs) (auto simp: plain_name_def)
  from join_slash_head [OF assms] have j: "join_slash cs \<noteq> []"
    by auto
  have "h5_lookup f g (join_slash cs) = h5_walk (fst g) (snd g) cs"
    using j hd ne by (simp add: h5_lookup_def split_sep_join_slash [OF assms(1) ns])
  with h5_walk_plain [OF assms(2) assms(1)] show ?thesis
    by simp
qed

lemma h5_lookup_node_at:
  assumes "node_at (root_node f) (fst g) = Some (snd g)"
    and "h5_lookup f g name = Some item"
  shows "node_at (root_node f) (fst item) = Some (snd item)"
proof -
  let ?parts = "split_sep CHR ''/'' name"
  let ?start = "if hd ?parts = [] then h5_root f else g"
  have s: "node_at (root_node f) (fst ?start) = Some (snd ?start)"
    using assms(1) by (simp add: h5_root_def)
  from assms(2) have w: "h5_walk (fst ?start) (snd ?start) (filter (\<lambda>c. c \<noteq> []) ?parts)
                          = Some (fst item, snd item)"
    by (simp add: h5_lookup_def Let_def split: if_splits)
  from h5_walk_node_at [OF s w] show ?thesis .
qed

lemma h5_root_valid: "valid_loc f (h5_root f)"
  by (cases f) (simp add: valid_loc_def h5_root_def)

section \<open>Facts about the commands\<close>

text \<open>What \<open>cd\<close> can do to the current group: keep it, or move it with nothing printed.\<close>

lemma cd_target:
  "\<exists>outs g c. cmd_cd f cur args = (outs, g, c)
        \<and> (g = cur
            \<or> (outs = [] \<and> c = Next
                \<and> (join_sp args = ''..'' \<and> h5_parent f cur = Inr g
                    \<or> join_sp args = ''/'' \<and> g = h5_root f
                    \<or> h5_lookup f cur (join_sp args) = Some g \<and> is_group (snd g))))"
proof -
  let ?t = "join_sp args"
  consider (usage) "args = []"
    | (up) "args \<noteq> []" "?t = ''..''"
    | (root) "args \<noteq> []" "?t = ''/''"
    | (name) "args \<noteq> []" "?t \<noteq> ''..''" "?t \<noteq> ''/''"
    by blast
  then show ?thesis
  proof cases
    case usage
    then show ?thesis by (cases cur) (auto simp: cmd_cd_def)
  next
    case up
    then show ?thesis
      by (cases "h5_parent f cur"; cases cur) (auto simp: cmd_cd_def)
  next
    case root
    then show ?thesis by (cases cur) (auto simp: cmd_cd_def)
  next
    case name
    show ?thesis
    proof (cases "h5_lookup f cur ?t")
      case None
      with name show ?thesis
        by (cases cur) (auto simp: cmd_cd_def h5_contains_def)
    next
      case (Some item)
      with name show ?thesis
        by (cases cur; cases item) (auto simp: cmd_cd_def h5_contains_def h5_getitem_def)
    qed
  qed
qed

lemma cmd_cd_valid:
  assumes "valid_loc f cur" and "cmd_cd f cur args = (outs, g, c)"
  shows "valid_loc f g"
proof -
  from cd_target [of f cur args] assms(2)
  consider "g = cur"
    | "h5_parent f cur = Inr g"
    | "g = h5_root f"
    | "h5_lookup f cur (join_sp args) = Some g" "is_group (snd g)"
    by auto
  then show ?thesis
  proof cases
    case 1
    with assms(1) show ?thesis by simp
  next
    case 2
    then have b: "fst g = butlast (fst cur)"
      and n: "node_at (root_node f) (butlast (fst cur)) = Some (snd g)"
      by (auto simp: h5_parent_def split: option.splits)
    show ?thesis
    proof (cases "fst cur = []")
      case True
      with assms(1) b n show ?thesis
        by (simp add: valid_loc_def)
    next
      case False
      from assms(1) have "node_at (root_node f) (fst cur) = Some (snd cur)"
        by (simp add: valid_loc_def)
      from node_at_butlast [OF this False] n b show ?thesis
        by (auto simp: valid_loc_def)
    qed
  next
    case 3
    then show ?thesis by (simp add: h5_root_valid)
  next
    case 4
    from assms(1) have "node_at (root_node f) (fst cur) = Some (snd cur)"
      by (simp add: valid_loc_def)
    from h5_lookup_node_at [OF this 4(1)] 4(2) show ?thesis
      by (simp add: valid_loc_def)
  qed
qed

lemma cmd_cat_keeps: "fst (snd (cmd_cat f cur args)) = cur"
  by (simp add: cmd_cat_def Let_def split: sum.splits node.splits prod.splits option.splits)

lemma cmd_attrs_keeps: "fst (snd (cmd_attrs f cur args)) = cur"
  by (simp add: cmd_attrs_def Let_def split: prod.splits option.splits)

lemma dispatch_moves:
  assumes "dispatch f cur cmd args = (outs, g, c)"
  shows "g = cur \<or> (cmd = ''cd'' \<and> cmd_cd f cur args = ([], g, Next))"
proof (cases "cmd = ''cd''")
  case True
  with assms have cd: "cmd_cd f cur args = (outs, g, c)"
    by (simp add: dispatch_def)
  with cd_target [of f cur args] have "g = cur \<or> (outs = [] \<and> c = Next)"
    by auto
  with cd True show ?thesis by auto
next
  case False
  have "fst (snd (dispatch f cur cmd args)) = cur"
    using False by (simp add: dispatch_def cmd_cat_keeps cmd_attrs_keeps)
  with assms show ?thesis by simp
qed

lemma dispatch_valid:
  assumes "valid_loc f cur" and "dispatch f cur cmd args = (outs, g, c)"
  shows "valid_loc f g"
proof -
  from dispatch_moves [OF assms(2)] show ?thesis
  proof
    assume "g = cur"
    with assms(1) show ?thesis by simp
  next
    assume "cmd = ''cd'' \<and> cmd_cd f cur args = ([], g, Next)"
    then show ?thesis using cmd_cd_valid [OF assms(1)] by blast
  qed
qed

lemma after_command_current: "current_group (after_command (outs, g, c) s) = g"
  by (cases c) (simp_all add: after_command_def say_def leave_loop_def)

lemma loop_body_moves:
  assumes "current_group (loop_body f fn s ev) \<noteq> current_group s"
  shows "\<exists>l w args. ev = Line l \<and> split_ws (strip l) = w # args \<and> lower w = ''cd''
           \<and> cmd_cd f (current_group s) args = ([], current_group (loop_body f fn s ev), Next)"
proof (cases ev)
  case (Line l)
  show ?thesis
  proof (cases "strip l = []")
    case True
    with Line assms show ?thesis
      by (simp add: loop_body_def say_def)
  next
    case ne: False
    show ?thesis
    proof (cases "split_ws (strip l)")
      case Nil
      with Line ne assms show ?thesis
        by (simp add: loop_body_def say_def)
    next
      case (Cons w args)
      obtain outs g c where d: "dispatch f (current_group s) (lower w) args = (outs, g, c)"
        by (cases "dispatch f (current_group s) (lower w) args") auto
      have cg: "current_group (loop_body f fn s ev) = g"
        using Line ne Cons d by (simp add: loop_body_def Let_def say_def after_command_current)
      with assms dispatch_moves [OF d] have "lower w = ''cd''"
        and "cmd_cd f (current_group s) args = ([], g, Next)"
        by auto
      with Line Cons cg show ?thesis by simp
    qed
  qed
next
  case EOFError
  with assms show ?thesis
    by (simp add: loop_body_def say_def leave_loop_def)
next
  case KeyboardInterrupt
  with assms show ?thesis
    by (simp add: loop_body_def say_def leave_loop_def)
qed

lemma loop_body_valid:
  assumes "valid_loc f (current_group s)"
  shows "valid_loc f (current_group (loop_body f fn s ev))"
proof (cases "current_group (loop_body f fn s ev) = current_group s")
  case True
  with assms show ?thesis by simp
next
  case False
  from loop_body_moves [OF False] obtain args
    where "cmd_cd f (current_group s) args = ([], current_group (loop_body f fn s ev), Next)"
    by blast
  from cmd_cd_valid [OF assms this] show ?thesis .
qed

lemma loop_valid:
  "valid_loc f (current_group s) \<Longrightarrow> valid_loc f (current_group (loop f fn s evs))"
  by (induction evs arbitrary: s) (simp_all add: loop_body_valid)

text \<open>Which exceptions leave a command, and when the file is closed.\<close>

lemma cmd_attrs_first_word: "cmd_attrs f cur (a # rest) = cmd_attrs f cur [a]"
  by (simp add: cmd_attrs_def)

lemma attr_loop_raises:
  "snd (attr_loop line as) = Some e \<Longrightarrow> \<exists>k. (k, Inl e) \<in> set as"
proof (induction as)
  case Nil
  then show ?case by simp
next
  case (Cons kv as)
  obtain k v where kv: "kv = (k, v)"
    by (cases kv) auto
  show ?case
  proof (cases v)
    case (Inl x)
    with Cons.prems kv show ?thesis by auto
  next
    case (Inr x)
    with Cons.prems kv have "snd (attr_loop line as) = Some e"
      by simp
    from Cons.IH [OF this] show ?thesis by auto
  qed
qed

lemma attr_lines_raises:
  assumes "snd (attr_lines t) = Some e"
  shows "\<exists>k. (k, Inl e) \<in> set (node_attrs (snd t))"
proof -
  from assms have "snd (attr_loop AttrLine (node_attrs (snd t))) = Some e"
    by (simp add: attr_lines_def Let_def split: if_splits)
  then show ?thesis by (rule attr_loop_raises)
qed

lemma print_dataset_raises:
  assumes "print_dataset item d = (outs, Some e)"
  shows "ds_shape d = Inl e \<or> ds_dtype d = Inl e
         \<or> (\<exists>k. (k, Inl e) \<in> set (ds_attrs d))
         \<or> (\<exists>m. ds_read d = Inl (TypeError m) \<and> e = TypeError m)"
proof (cases "snd (attr_loop DsAttr (ds_attrs d)) = Some e")
  case True
  from attr_loop_raises [OF this] show ?thesis by blast
next
  case False
  with assms show ?thesis
    by (auto simp: print_dataset_def show_data_def on_type_error_def Let_def
             split: sum.splits prod.splits exc.splits if_splits)
qed

lemma cmd_cd_raises:
  assumes "valid_loc f cur"
  shows "snd (snd (cmd_cd f cur args)) \<noteq> Raise e"
proof -
  have p: "h5_parent f cur \<noteq> Inl x" if "h5_name (fst cur) \<noteq> ''/''" for x
  proof -
    from that have ne: "fst cur \<noteq> []"
      by (auto simp: h5_name_def)
    from assms have "node_at (root_node f) (fst cur) = Some (snd cur)"
      by (simp add: valid_loc_def)
    from node_at_butlast [OF this ne] show ?thesis
      by (auto simp: h5_parent_def)
  qed
  show ?thesis
    using p
    by (auto simp: cmd_cd_def h5_contains_def h5_getitem_def Let_def
             split: sum.splits option.splits)
qed

lemma cmd_attrs_raises:
  assumes "cmd_attrs f cur args = (outs, g, Raise e)"
  shows "\<exists>t k. (t = cur \<or> h5_lookup f cur (hd args) = Some t)
               \<and> (k, Inl e) \<in> set (node_attrs (snd t))"
proof -
  from assms have "snd (attr_lines cur) = Some e
      \<or> (\<exists>t. h5_lookup f cur (hd args) = Some t \<and> snd (attr_lines t) = Some e)"
    by (auto simp: cmd_attrs_def print_attrs_def h5_contains_def h5_getitem_def Let_def
             split: list.splits option.splits prod.splits if_splits)
  then show ?thesis
  proof
    assume "snd (attr_lines cur) = Some e"
    from attr_lines_raises [OF this] show ?thesis
      by blast
  next
    assume "\<exists>t. h5_lookup f cur (hd args) = Some t \<and> snd (attr_lines t) = Some e"
    then obtain t where t: "h5_lookup f cur (hd args) = Some t"
      and l: "snd (attr_lines t) = Some e"
      by blast
    from attr_lines_raises [OF l] t show ?thesis
      by blast
  qed
qed

lemma cmd_cat_raises:
  assumes "cmd_cat f cur args = (outs, g, Raise e)"
  shows "\<exists>item d. h5_lookup f cur (join_sp args) = Some item \<and> snd item = DatasetN d
           \<and> (ds_shape d = Inl e \<or> ds_dtype d = Inl e
                \<or> (\<exists>k. (k, Inl e) \<in> set (ds_attrs d))
                \<or> (\<exists>m. ds_read d = Inl (TypeError m) \<and> e = TypeError m))"
proof -
  from assms obtain item d o' where l: "h5_lookup f cur (join_sp args) = Some item"
    and d: "snd item = DatasetN d" and p: "print_dataset item d = (o', Some e)"
    by (auto simp: cmd_cat_def h5_contains_def h5_getitem_def Let_def
             split: if_splits option.splits node.splits prod.splits)
  from print_dataset_raises [OF p] l d show ?thesis
    by blast
qed

text \<open>
  At a valid location an exception leaves a command only from \<open>cat\<close>, when the shape,
  the element type, an attribute or (with \<open>TypeError\<close>) the data of the dataset cannot
  be read, or from \<open>attrs\<close>, when an attribute cannot be read.
\<close>

lemma dispatch_raises:
  assumes "valid_loc f cur" and "dispatch f cur cmd args = (outs, g, Raise e)"
  shows "(cmd \<in> set [''cat'', ''view'']
          \<and> (\<exists>item d. h5_lookup f cur (join_sp args) = Some item \<and> snd item = DatasetN d
               \<and> (ds_shape d = Inl e \<or> ds_dtype d = Inl e
                    \<or> (\<exists>k. (k, Inl e) \<in> set (ds_attrs d))
                    \<or> (\<exists>m. ds_read d = Inl (TypeError m) \<and> e = TypeError m))))
         \<or> (cmd = ''attrs''
             \<and> (\<exists>t k. (t = cur \<or> h5_lookup f cur (hd args) = Some t)
                       \<and> (k, Inl e) \<in> set (node_attrs (snd t))))"
proof -
  from assms(2) cmd_cd_raises [OF assms(1), of args e]
  consider (cat) "cmd \<in> set [''cat'', ''view'']" "cmd_cat f cur args = (outs, g, Raise e)"
    | (attrs) "cmd = ''attrs''" "cmd_attrs f cur args = (outs, g, Raise e)"
    by (auto simp: dispatch_def split: if_splits)
  then show ?thesis
  proof cases
    case cat
    with cmd_cat_raises [OF cat(2)] show ?thesis by blast
  next
    case attrs
    with cmd_attrs_raises [OF attrs(2)] show ?thesis by blast
  qed
qed

lemma loop_body_closes:
  "fhandle s = Open \<Longrightarrow> status s = ACTIVE \<Longrightarrow>
     (status (loop_body f fn s ev) = TERMINATED) = (fhandle (loop_body f fn s ev) = Closed)"
  by (auto simp: loop_body_def after_command_def say_def leave_loop_def Let_def
           split: event.splits list.splits prod.splits control.splits)

lemma loop_closes:
  "fhandle s = Open \<Longrightarrow> status s = ACTIVE \<Longrightarrow>
     (status (loop f fn s evs) = TERMINATED) = (fhandle (loop f fn s evs) = Closed)"
proof (induction evs arbitrary: s)
  case Nil
  then show ?case by simp
next
  case (Cons ev evs)
  show ?case
  proof (cases "status (loop_body f fn s ev) = ACTIVE")
    case True
    with Cons.prems loop_body_closes [of s f fn ev] have "fhandle (loop_body f fn s ev) = Open"
      by (cases "fhandle (loop_body f fn s ev)") auto
    from Cons.IH [OF this True] Cons.prems show ?thesis by simp
  next
    case False
    then have "loop f fn (loop_body f fn s ev) evs = loop_body f fn s ev"
      by (cases evs) simp_all
    with Cons.prems loop_body_closes [of s f fn ev] show ?thesis by simp
  qed
qed

section \<open>Facts about the listing and the preview\<close>

lemma not_both_kinds: "\<not> (is_group n \<and> is_dataset n)"
  by (cases n) simp_all

lemma ls_both_empty:
  "(ls_groups n = [] \<and> ls_datasets n = []) = (\<not> list_ex listed (items n))"
  by (auto simp: ls_groups_def ls_datasets_def listed_def filter_empty_conv list_ex_iff)

lemma ls_groups_set: "set (ls_groups n) = fst ` {c \<in> set (items n). is_group (snd c)}"
  by (auto simp: ls_groups_def image_iff)

lemma ls_datasets_set: "set (ls_datasets n) = fst ` {c \<in> set (items n). is_dataset (snd c)}"
  by (auto simp: ls_datasets_def image_iff)

lemma ls_names_union:
  "set (ls_groups n) \<union> set (ls_datasets n) = fst ` {c \<in> set (items n). listed c}"
  unfolding ls_groups_set ls_datasets_set by (auto simp: listed_def)

lemma ls_names_distinct:
  assumes "distinct (map fst (items n))"
  shows "distinct (ls_groups n @ ls_datasets n)"
proof -
  have "distinct (map fst (filter P xs) @ map fst (filter Q xs))"
    if "distinct (map fst xs)" and "\<And>x. \<not> (P x \<and> Q x)"
    for P Q and xs :: "(string \<times> node) list"
    using that by (induction xs) (auto simp: image_iff)
  from this [OF assms, of "\<lambda>(nm, it). is_group it" "\<lambda>(nm, it). is_dataset it"]
  show ?thesis
    by (simp add: ls_groups_def ls_datasets_def case_prod_unfold not_both_kinds)
qed

lemma filter_names_set:
  assumes "set xs = set ys"
  shows "set (map fst (filter P xs)) = set (map fst (filter P ys))"
  using assms by auto

lemma array_repr_not_dots: "array_repr summ e a \<noteq> Dots"
  by (cases a) simp_all

lemma dots_notin_map: "Dots \<notin> set (map (array_repr summ e) xs)"
  using array_repr_not_dots [of summ e] by (auto simp: image_iff) metis

lemma full_when_no_dots:
  "\<not> has_dots (array_repr summ e a) \<Longrightarrow> repr_elems (array_repr summ e a) = nd_elems a"
proof (induction a)
  case (Scalar x)
  then show ?case by simp
next
  case (Array xs)
  from Array.prems have full: "\<not> (summ \<and> 2 * e < length xs)"
    by (auto simp: list_ex_iff)
  then have r: "array_repr summ e (Array xs) = Seq (map (array_repr summ e) xs)"
    by auto
  from Array.prems have "\<forall>x\<in>set xs. \<not> has_dots (array_repr summ e x)"
    unfolding r by (simp add: list_ex_iff)
  with Array.IH have "\<forall>x\<in>set xs. repr_elems (array_repr summ e x) = nd_elems x"
    by blast
  then have meq: "map (\<lambda>x. repr_elems (array_repr summ e x)) xs = map nd_elems xs"
    by simp
  show ?case
    unfolding r by (simp only: repr_elems.simps nd_elems.simps map_map o_def meq)
qed

lemma no_dots_unsummarised: "\<not> has_dots (array_repr False e a)"
  by (induction a) (auto simp: list_ex_iff)

text \<open>Data within the threshold is shown whole.\<close>

lemma show_data_within_threshold:
  assumes "ds_read d = Inr a" and "nd_size a \<le> threshold"
  shows "show_data d = ([DsData (preview a)], None)
         \<and> \<not> has_dots (preview a) \<and> repr_elems (preview a) = nd_elems a"
proof -
  from assms(2) have p: "preview a = array_repr False edgeitems a"
    by (simp add: preview_def)
  have n: "\<not> has_dots (preview a)"
    unfolding p by (rule no_dots_unsummarised)
  then have "repr_elems (preview a) = nd_elems a"
    unfolding preview_def by (rule full_when_no_dots)
  with n assms(1) show ?thesis
    by (simp add: show_data_def)
qed

section \<open>Blank input lines\<close>

text \<open>
  Claim C10.  For every input line that is empty or consists only of whitespace, the turn
  of the loop prints the prompt and nothing else, and goes back to the prompt: the session
  status, the current group and the file handle are what they were, and no error or report
  is printed.
\<close>

theorem blank_line_reprompts:
  assumes "list_all isspace l"
  shows "status (loop_body f fn s (Line l)) = status s
       \<and> current_group (loop_body f fn s (Line l)) = current_group s
       \<and> fhandle (loop_body f fn s (Line l)) = fhandle s
       \<and> printed (loop_body f fn s (Line l)) =
           printed s @ [Prompt fn (h5_name (fst (current_group s)))]"
  using assms by (simp add: loop_body_def strip_blank say_def)

theorem blank_line_reprompts_witness:
  "list_all isspace [CHR '' '', CHR 0x09, CHR '' '']
   \<and> status (loop_body ex_file ''x.h5'' ex_session (Line [CHR '' '', CHR 0x09, CHR '' '']))
       = ACTIVE
   \<and> current_group (loop_body ex_file ''x.h5'' ex_session (Line [CHR '' '', CHR 0x09, CHR '' '']))
       = h5_root ex_file
   \<and> printed (loop_body ex_file ''x.h5'' ex_session (Line [CHR '' '', CHR 0x09, CHR '' '']))
       = [Opened ''x.h5'', HelpHint, Prompt ''x.h5'' ''/'']"
proof -
  have h: "list_all isspace [CHR '' '', CHR 0x09, CHR '' '']"
    by (simp add: isspace_def)
  from blank_line_reprompts [OF h, of ex_file "''x.h5''" ex_session] h
  show ?thesis
    by (simp add: ex_session_def start_def h5_root_def h5_name_def)
qed

section \<open>Going up\<close>

text \<open>
  Claim C8.  \<open>cd ..\<close> at the root changes nothing and prints the notice that the session
  is already at the root, which is not an error message.  Anywhere else (member names are
  never empty) the current group becomes the group one level up, which is again a
  collection of the graph, and nothing is printed.
\<close>

theorem cd_dotdot:
  "(fst cur = [] \<longrightarrow> cmd_cd f cur [''..''] = ([AtRoot], cur, Next) \<and> \<not> is_error AtRoot)
   \<and> (valid_loc f cur \<and> fst cur \<noteq> [] \<and> [] \<notin> set (fst cur) \<longrightarrow>
        (\<exists>n. cmd_cd f cur [''..''] = ([], (butlast (fst cur), n), Next)
             \<and> valid_loc f (butlast (fst cur), n)))"
proof (intro conjI impI)
  assume "fst cur = []"
  then show "cmd_cd f cur [''..''] = ([AtRoot], cur, Next)"
    by (simp add: cmd_cd_def h5_name_def)
next
  show "\<not> is_error AtRoot"
    by (simp add: is_error_def)
next
  assume a: "valid_loc f cur \<and> fst cur \<noteq> [] \<and> [] \<notin> set (fst cur)"
  then have at: "node_at (root_node f) (fst cur) = Some (snd cur)"
    by (simp add: valid_loc_def)
  from node_at_butlast [OF at] a obtain m
    where m: "node_at (root_node f) (butlast (fst cur)) = Some m" and g: "is_group m"
    by blast
  from a have nr: "h5_name (fst cur) \<noteq> ''/''"
    by (simp add: h5_name_root)
  have "cmd_cd f cur [''..''] = ([], (butlast (fst cur), m), Next)"
    using nr m by (simp add: cmd_cd_def h5_parent_def)
  moreover have "valid_loc f (butlast (fst cur), m)"
    using m g by (simp add: valid_loc_def)
  ultimately show "\<exists>n. cmd_cd f cur [''..''] = ([], (butlast (fst cur), n), Next)
             \<and> valid_loc f (butlast (fst cur), n)"
    by blast
qed

theorem cd_dotdot_witness:
  "fst (h5_root ex_file) = []
   \<and> cmd_cd ex_file (h5_root ex_file) [''..''] = ([AtRoot], h5_root ex_file, Next)
   \<and> \<not> is_error AtRoot
   \<and> valid_loc ex_file ex_a \<and> fst ex_a \<noteq> [] \<and> [] \<notin> set (fst ex_a)
   \<and> cmd_cd ex_file ex_a [''..''] = ([], h5_root ex_file, Next)"
proof -
  have r: "fst (h5_root ex_file) = []"
    by (simp add: h5_root_def)
  have v: "valid_loc ex_file ex_a \<and> fst ex_a \<noteq> [] \<and> [] \<notin> set (fst ex_a)"
    by (simp add: valid_loc_def ex_a_def ex_file_def child_def)
  have b: "butlast (fst ex_a) = []"
    by (simp add: ex_a_def)
  from cd_dotdot [of "h5_root ex_file" ex_file] r
  have 1: "cmd_cd ex_file (h5_root ex_file) [''..''] = ([AtRoot], h5_root ex_file, Next)
           \<and> \<not> is_error AtRoot"
    by blast
  from cd_dotdot [of ex_a ex_file] v obtain n
    where 2: "cmd_cd ex_file ex_a [''..''] = ([], (butlast (fst ex_a), n), Next)"
      and 3: "valid_loc ex_file (butlast (fst ex_a), n)"
    by blast
  from 3 b have "n = root_node ex_file"
    by (simp add: valid_loc_def)
  with 2 b have "cmd_cd ex_file ex_a [''..''] = ([], h5_root ex_file, Next)"
    by (simp add: h5_root_def)
  with r v 1 show ?thesis
    by blast
qed

section \<open>Looking a name up\<close>

text \<open>
  Claim C1, as amended.  Take a token made of one or more plain member names joined by
  \<open>/\<close>.  Given to \<open>cd\<close> (where it is not \<open>..\<close>) or to \<open>cat\<close> as the arguments
  joined by single spaces, or to \<open>attrs\<close> as its one argument, the token is resolved
  from the current group by one exact, case-sensitive member lookup for each name, in
  order: absent on the way, the command reports that the token was not found; present,
  the command works on the member reached.  A token with no \<open>/\<close> is therefore looked up
  as one member name of the current group, and \<open>a/b\<close> as the member \<open>b\<close> of the
  member \<open>a\<close>.
\<close>

theorem token_lookup_by_names:
  assumes "cs \<noteq> []" and "list_all plain_name cs"
  shows "(join_sp args = join_slash cs \<and> join_slash cs \<noteq> ''..'' \<longrightarrow>
            cmd_cd f cur args =
              (case node_at (snd cur) cs of
                 None \<Rightarrow> ([CdNotFound (h5_name (fst cur)) (join_slash cs)], cur, Next)
               | Some m \<Rightarrow> if is_group m then ([], (fst cur @ cs, m), Next)
                           else ([CdIsDataset (join_slash cs)], cur, Next)))
       \<and> (join_sp args = join_slash cs \<longrightarrow>
            cmd_cat f cur args =
              (case node_at (snd cur) cs of
                 None \<Rightarrow> ([CatNotFound (h5_name (fst cur)) (join_slash cs)], cur, Next)
               | Some m \<Rightarrow>
                   (case m of
                      DatasetN d \<Rightarrow>
                        (case print_dataset (fst cur @ cs, m) d of
                           (outs, None) \<Rightarrow> (outs, cur, Next)
                         | (outs, Some e) \<Rightarrow> (outs, cur, Raise e))
                    | _ \<Rightarrow> ([CatIsGroup (join_slash cs)], cur, Next))))
       \<and> cmd_attrs f cur [join_slash cs] =
              (case node_at (snd cur) cs of
                 None \<Rightarrow> ([AttrsNotFound (h5_name (fst cur)) (join_slash cs)], cur, Next)
               | Some m \<Rightarrow>
                   (case attr_lines (fst cur @ cs, m) of
                      (outs, None) \<Rightarrow> (outs, cur, Next)
                    | (outs, Some e) \<Rightarrow> (outs, cur, Raise e)))
       \<and> node_at (snd cur) [tok] = child (snd cur) tok
       \<and> node_at (snd cur) [a, b] =
           (case child (snd cur) a of None \<Rightarrow> None | Some m \<Rightarrow> child m b)"
proof -
  let ?t = "join_slash cs"
  note lk = h5_lookup_path [OF assms, of f cur]
  from join_slash_head [OF assms] have t: "?t \<noteq> []" "?t \<noteq> ''/''"
    by auto
  have ne: "args \<noteq> []" if "join_sp args = ?t" for args
    using that t(1) by auto
  have cd: "cmd_cd f cur args =
              (case node_at (snd cur) cs of
                 None \<Rightarrow> ([CdNotFound (h5_name (fst cur)) ?t], cur, Next)
               | Some m \<Rightarrow> if is_group m then ([], (fst cur @ cs, m), Next)
                           else ([CdIsDataset ?t], cur, Next))"
    if "join_sp args = ?t" and "?t \<noteq> ''..''"
    using that ne [OF that(1)] t(2) lk
    by (auto simp: cmd_cd_def h5_contains_def h5_getitem_def Let_def split: option.splits)
  have cat: "cmd_cat f cur args =
              (case node_at (snd cur) cs of
                 None \<Rightarrow> ([CatNotFound (h5_name (fst cur)) ?t], cur, Next)
               | Some m \<Rightarrow>
                   (case m of
                      DatasetN d \<Rightarrow>
                        (case print_dataset (fst cur @ cs, m) d of
                           (outs, None) \<Rightarrow> (outs, cur, Next)
                         | (outs, Some e) \<Rightarrow> (outs, cur, Raise e))
                    | _ \<Rightarrow> ([CatIsGroup ?t], cur, Next)))"
    if "join_sp args = ?t"
    using that ne [OF that] lk
    by (auto simp: cmd_cat_def h5_contains_def h5_getitem_def Let_def
             split: option.splits node.splits)
  have attrs: "cmd_attrs f cur [?t] =
              (case node_at (snd cur) cs of
                 None \<Rightarrow> ([AttrsNotFound (h5_name (fst cur)) ?t], cur, Next)
               | Some m \<Rightarrow>
                   (case attr_lines (fst cur @ cs, m) of
                      (outs, None) \<Rightarrow> (outs, cur, Next)
                    | (outs, Some e) \<Rightarrow> (outs, cur, Raise e)))"
    using t(1) lk
    by (auto simp: cmd_attrs_def print_attrs_def h5_contains_def h5_getitem_def
             split: option.splits)
  have one: "node_at (snd cur) [tok] = child (snd cur) tok"
    by (simp split: option.splits)
  have two: "node_at (snd cur) [a, b] =
           (case child (snd cur) a of None \<Rightarrow> None | Some m \<Rightarrow> child m b)"
    by (simp split: option.splits)
  from cd cat attrs one two show ?thesis
    by blast
qed

theorem token_lookup_by_names_witness:
  "[''a'', ''b''] \<noteq> [] \<and> list_all plain_name [''a'', ''b'']
   \<and> join_sp [''a/b''] = join_slash [''a'', ''b''] \<and> join_slash [''a'', ''b''] \<noteq> ''..''
   \<and> node_at (snd (h5_root ex_file)) [''a'', ''b''] = Some (GroupN [] [])
   \<and> cmd_cd ex_file (h5_root ex_file) [''a/b''] = ([], ([''a'', ''b''], GroupN [] []), Next)
   \<and> cmd_cat ex_file (h5_root ex_file) [''a/b''] = ([CatIsGroup ''a/b''], h5_root ex_file, Next)
   \<and> cmd_attrs ex_file (h5_root ex_file) [''a/b'']
       = ([AttrsHeader ''/a/b'', AttrsNone], h5_root ex_file, Next)
   \<and> list_all plain_name [''g1'']
   \<and> cmd_cd ex_file (h5_root ex_file) [''g1'']
       = ([], ([''g1''], GroupN [] [(''d1'', DatasetN ex_d1)]), Next)
   \<and> cmd_cd ex_file (h5_root ex_file) [''G1'']
       = ([CdNotFound ''/'' ''G1''], h5_root ex_file, Next)"
proof -
  have h: "[''a'', ''b''] \<noteq> []" "list_all plain_name [''a'', ''b'']"
    by (simp_all add: plain_name_def)
  have j: "join_sp [''a/b''] = join_slash [''a'', ''b'']" "join_slash [''a'', ''b''] \<noteq> ''..''"
    by simp_all
  have n: "node_at (snd (h5_root ex_file)) [''a'', ''b''] = Some (GroupN [] [])"
    by (simp add: h5_root_def ex_file_def child_def)
  have a: "attr_lines (fst (h5_root ex_file) @ [''a'', ''b''], GroupN [] [])
             = ([AttrsHeader ''/a/b'', AttrsNone], None)"
    by (simp add: attr_lines_def h5_root_def h5_name_def)
  have g: "[''g1''] \<noteq> []" "list_all plain_name [''g1'']"
    by (simp_all add: plain_name_def)
  have gj: "join_sp [''g1''] = join_slash [''g1'']" "join_slash [''g1''] \<noteq> ''..''"
    by simp_all
  have gn: "node_at (snd (h5_root ex_file)) [''g1''] = Some (GroupN [] [(''d1'', DatasetN ex_d1)])"
    by (simp add: h5_root_def ex_file_def child_def)
  have u: "[''G1''] \<noteq> []" "list_all plain_name [''G1'']"
    by (simp_all add: plain_name_def)
  have uj: "join_sp [''G1''] = join_slash [''G1'']" "join_slash [''G1''] \<noteq> ''..''"
    by simp_all
  have un: "node_at (snd (h5_root ex_file)) [''G1''] = None"
    by (simp add: h5_root_def ex_file_def child_def)
  from token_lookup_by_names [OF h, of "[''a/b'']" ex_file "h5_root ex_file"] j n a
  have 1: "cmd_cd ex_file (h5_root ex_file) [''a/b''] = ([], ([''a'', ''b''], GroupN [] []), Next)"
    and 2: "cmd_cat ex_file (h5_root ex_file) [''a/b''] = ([CatIsGroup ''a/b''], h5_root ex_file, Next)"
    and 3: "cmd_attrs ex_file (h5_root ex_file) [''a/b'']
              = ([AttrsHeader ''/a/b'', AttrsNone], h5_root ex_file, Next)"
    by (simp_all add: h5_root_def)
  from token_lookup_by_names [OF g, of "[''g1'']" ex_file "h5_root ex_file"] gj gn
  have 4: "cmd_cd ex_file (h5_root ex_file) [''g1'']
             = ([], ([''g1''], GroupN [] [(''d1'', DatasetN ex_d1)]), Next)"
    by (simp add: h5_root_def)
  from token_lookup_by_names [OF u, of "[''G1'']" ex_file "h5_root ex_file"] uj un
  have 5: "cmd_cd ex_file (h5_root ex_file) [''G1'']
             = ([CdNotFound ''/'' ''G1''], h5_root ex_file, Next)"
    by (simp add: h5_root_def h5_name_def)
  from h j n 1 2 3 g 4 5 show ?thesis
    by blast
qed

text \<open>
  The claim as first stated fails: \<open>a/b\<close> is not a member name of the root of the
  example container, yet \<open>cd a/b\<close> at the root succeeds and enters the group \<open>b\<close> of
  the group \<open>a\<close>, because the library follows the name one member at a time.
\<close>

theorem separator_token_is_traversed:
  "child (snd (h5_root ex_file)) ''a/b'' = None
   \<and> cmd_cd ex_file (h5_root ex_file) [''a/b''] = ([], ([''a'', ''b''], GroupN [] []), Next)"
  by code_simp

section \<open>Changing the current group\<close>

text \<open>
  Claim C4.  When the token of \<open>cd\<close> resolves to a dataset, the command prints that the
  name is a dataset and not a group, and the current group stays what it was.  For every
  token, \<open>cd\<close> either keeps the current group, or prints nothing and moves it to the
  group the token resolves to: the parent for \<open>..\<close>, the root for \<open>/\<close>, and
  otherwise the group that the lookup of the token gives.
\<close>

theorem cd_all_or_nothing:
  "(join_sp args \<noteq> ''..'' \<and> join_sp args \<noteq> ''/''
      \<and> h5_lookup f cur (join_sp args) = Some item \<and> \<not> is_group (snd item)
     \<longrightarrow> cmd_cd f cur args = ([CdIsDataset (join_sp args)], cur, Next))
   \<and> (\<exists>outs g c. cmd_cd f cur args = (outs, g, c)
        \<and> (g = cur
            \<or> (outs = [] \<and> c = Next
                \<and> (join_sp args = ''..'' \<and> h5_parent f cur = Inr g
                    \<or> join_sp args = ''/'' \<and> g = h5_root f
                    \<or> h5_lookup f cur (join_sp args) = Some g \<and> is_group (snd g)))))"
proof (intro conjI impI)
  assume a: "join_sp args \<noteq> ''..'' \<and> join_sp args \<noteq> ''/''
      \<and> h5_lookup f cur (join_sp args) = Some item \<and> \<not> is_group (snd item)"
  then have "args \<noteq> []"
    by (auto simp: h5_lookup_def)
  with a show "cmd_cd f cur args = ([CdIsDataset (join_sp args)], cur, Next)"
    by (simp add: cmd_cd_def h5_contains_def h5_getitem_def)
next
  show "\<exists>outs g c. cmd_cd f cur args = (outs, g, c)
        \<and> (g = cur
            \<or> (outs = [] \<and> c = Next
                \<and> (join_sp args = ''..'' \<and> h5_parent f cur = Inr g
                    \<or> join_sp args = ''/'' \<and> g = h5_root f
                    \<or> h5_lookup f cur (join_sp args) = Some g \<and> is_group (snd g))))"
    by (rule cd_target)
qed

theorem cd_all_or_nothing_witness:
  "join_sp [''bad''] \<noteq> ''..'' \<and> join_sp [''bad''] \<noteq> ''/''
   \<and> h5_lookup ex_file (h5_root ex_file) (join_sp [''bad'']) = Some ([''bad''], DatasetN ex_bad)
   \<and> \<not> is_group (snd ([''bad''], DatasetN ex_bad))
   \<and> cmd_cd ex_file (h5_root ex_file) [''bad''] = ([CdIsDataset ''bad''], h5_root ex_file, Next)"
proof -
  have h: "join_sp [''bad''] \<noteq> ''..'' \<and> join_sp [''bad''] \<noteq> ''/''
      \<and> h5_lookup ex_file (h5_root ex_file) (join_sp [''bad'']) = Some ([''bad''], DatasetN ex_bad)
      \<and> \<not> is_group (snd ([''bad''], DatasetN ex_bad))"
    by (simp add: h5_lookup_def h5_root_def ex_file_def child_def)
  from cd_all_or_nothing [of "[''bad'']" ex_file "h5_root ex_file" "([''bad''], DatasetN ex_bad)"] h
  show ?thesis
    by simp
qed

section \<open>The current group is always a collection of the graph\<close>

text \<open>
  Claim C9.  In every state the loop reaches from the start of the session, whatever the
  input was and whether the commands succeeded or failed, the current group is a group
  node of the container, found at its location from the root.  A turn of the loop changes
  the current group only when the line is a \<open>cd\<close> command that succeeded: it printed
  nothing and went on to the next prompt.
\<close>

theorem current_group_invariant:
  "valid_loc f (current_group (loop f fn (start f fn) evs))
   \<and> (current_group (loop_body f fn s ev) \<noteq> current_group s \<longrightarrow>
        (\<exists>l w args. ev = Line l \<and> split_ws (strip l) = w # args \<and> lower w = ''cd''
           \<and> cmd_cd f (current_group s) args
               = ([], current_group (loop_body f fn s ev), Next)))"
proof (intro conjI impI)
  have "valid_loc f (current_group (start f fn))"
    by (simp add: start_def h5_root_valid)
  then show "valid_loc f (current_group (loop f fn (start f fn) evs))"
    by (rule loop_valid)
next
  assume "current_group (loop_body f fn s ev) \<noteq> current_group s"
  then show "\<exists>l w args. ev = Line l \<and> split_ws (strip l) = w # args \<and> lower w = ''cd''
           \<and> cmd_cd f (current_group s) args
               = ([], current_group (loop_body f fn s ev), Next)"
    by (rule loop_body_moves)
qed

theorem current_group_invariant_witness:
  "valid_loc ex_file (current_group (loop ex_file ''x.h5'' ex_session [Line ''cd bad'', Line ''cd a/b'', Line ''cat b'']))
   \<and> current_group (loop_body ex_file ''x.h5'' ex_session (Line ''CD  a'')) \<noteq> current_group ex_session
   \<and> split_ws (strip ''CD  a'') = [''CD'', ''a''] \<and> lower ''CD'' = ''cd''
   \<and> cmd_cd ex_file (current_group ex_session) [''a''] = ([], ex_a, Next)
   \<and> current_group (loop_body ex_file ''x.h5'' ex_session (Line ''CD  a'')) = ex_a"
proof -
  have m: "current_group (loop_body ex_file ''x.h5'' ex_session (Line ''CD  a'')) = ex_a"
    by code_simp
  have n: "ex_a \<noteq> current_group ex_session"
    by (simp add: ex_a_def ex_session_def start_def h5_root_def)
  have e: "split_ws (strip ''CD  a'') = [''CD'', ''a''] \<and> lower ''CD'' = ''cd''"
    by code_simp
  from current_group_invariant [of ex_file "''x.h5''"
      "[Line ''cd bad'', Line ''cd a/b'', Line ''cat b'']" ex_session "Line ''CD  a''"] m n e
  show ?thesis
    by (auto simp: ex_session_def)
qed

section \<open>Listing a group\<close>

text \<open>
  Claim C6, as amended.  For every group whose member names are distinct, \<open>ls\<close> gives
  the names of the members that are groups and the names of the members that are
  datasets, each sequence sorted ascending in the lexicographic order of strings and the
  same for any other order of the same members; the two sequences together hold exactly
  the names of the members that are groups or datasets, none twice (a member of another
  kind is not listed).  A group with no members is reported by the one line that says it
  is empty, and a group with a member that is a group or a dataset by the header and the
  two sequences.
\<close>

theorem ls_lists_groups_and_datasets:
  assumes "distinct (map fst (items (snd g)))"
  shows "(items (snd g) = [] \<longrightarrow> print_ls f g = [LsHeader (h5_name (fst g)), LsEmpty])
       \<and> (list_ex listed (items (snd g)) \<longrightarrow>
            print_ls f g =
              LsHeader (h5_name (fst g))
              # map LsGroup (sort (ls_groups (snd g)))
              @ map (ls_dataset_line f g) (sort (ls_datasets (snd g))))
       \<and> sorted (sort (ls_groups (snd g))) \<and> sorted (sort (ls_datasets (snd g)))
       \<and> set (sort (ls_groups (snd g))) = fst ` {c \<in> set (items (snd g)). is_group (snd c)}
       \<and> set (sort (ls_datasets (snd g)))
           = fst ` {c \<in> set (items (snd g)). is_dataset (snd c)}
       \<and> set (sort (ls_groups (snd g))) \<union> set (sort (ls_datasets (snd g)))
           = fst ` {c \<in> set (items (snd g)). listed c}
       \<and> distinct (sort (ls_groups (snd g)) @ sort (ls_datasets (snd g)))
       \<and> (distinct (map fst (items n')) \<and> set (items n') = set (items (snd g)) \<longrightarrow>
            sort (ls_groups n') = sort (ls_groups (snd g))
            \<and> sort (ls_datasets n') = sort (ls_datasets (snd g)))"
proof (intro conjI impI)
  assume "items (snd g) = []"
  then show "print_ls f g = [LsHeader (h5_name (fst g)), LsEmpty]"
    by (simp add: print_ls_def ls_groups_def ls_datasets_def)
next
  assume "list_ex listed (items (snd g))"
  with ls_both_empty [of "snd g"]
  have "\<not> (ls_groups (snd g) = [] \<and> ls_datasets (snd g) = [])"
    by simp
  then show "print_ls f g =
              LsHeader (h5_name (fst g))
              # map LsGroup (sort (ls_groups (snd g)))
              @ map (ls_dataset_line f g) (sort (ls_datasets (snd g)))"
    by (auto simp: print_ls_def Let_def)
next
  show "sorted (sort (ls_groups (snd g)))" and "sorted (sort (ls_datasets (snd g)))"
    by simp_all
  show "set (sort (ls_groups (snd g))) = fst ` {c \<in> set (items (snd g)). is_group (snd c)}"
    using ls_groups_set [of "snd g"] by simp
  show "set (sort (ls_datasets (snd g)))
           = fst ` {c \<in> set (items (snd g)). is_dataset (snd c)}"
    using ls_datasets_set [of "snd g"] by simp
  show "set (sort (ls_groups (snd g))) \<union> set (sort (ls_datasets (snd g)))
           = fst ` {c \<in> set (items (snd g)). listed c}"
    using ls_names_union [of "snd g"] by simp
  from ls_names_distinct [OF assms]
  show "distinct (sort (ls_groups (snd g)) @ sort (ls_datasets (snd g)))"
    by simp
next
  assume a: "distinct (map fst (items n')) \<and> set (items n') = set (items (snd g))"
  from ls_names_distinct [OF assms]
  have d: "distinct (ls_groups (snd g))" "distinct (ls_datasets (snd g))"
    by simp_all
  from a ls_names_distinct [of n'] have d': "distinct (ls_groups n')" "distinct (ls_datasets n')"
    by simp_all
  from a have sg: "set (ls_groups n') = set (ls_groups (snd g))"
    unfolding ls_groups_def by (intro filter_names_set) simp
  from a have sd: "set (ls_datasets n') = set (ls_datasets (snd g))"
    unfolding ls_datasets_def by (intro filter_names_set) simp
  show "sort (ls_groups n') = sort (ls_groups (snd g))"
    using d d' sg by (intro sorted_distinct_set_unique) simp_all
  show "sort (ls_datasets n') = sort (ls_datasets (snd g))"
    using d d' sd by (intro sorted_distinct_set_unique) simp_all
qed

theorem ls_lists_groups_and_datasets_witness:
  "distinct (map fst (items (snd (h5_root ex_file))))
   \<and> list_ex listed (items (snd (h5_root ex_file)))
   \<and> print_ls ex_file (h5_root ex_file)
       = [LsHeader ''/'', LsGroup ''a'', LsGroup ''g1'', LsGroup ''my data'',
          LsDataset ''bad'' [2] ''object'',
          LsUnreadable ''odd'' (TypeError ''no NumPy equivalent'')]
   \<and> distinct (map fst (items ex_rev)) \<and> set (items ex_rev) = set (items (snd (h5_root ex_file)))
   \<and> sort (ls_groups ex_rev) = [''a'', ''g1'', ''my data'']
   \<and> sort (ls_datasets ex_rev) = [''bad'', ''odd'']
   \<and> items (snd ([''a'', ''b''], GroupN [] [])) = []
   \<and> print_ls ex_file ([''a'', ''b''], GroupN [] []) = [LsHeader ''/a/b'', LsEmpty]"
proof -
  have d: "distinct (map fst (items (snd (h5_root ex_file))))"
    by (simp add: h5_root_def ex_file_def)
  have x: "list_ex listed (items (snd (h5_root ex_file)))"
    by (simp add: h5_root_def ex_file_def listed_def)
  have d': "distinct (map fst (items ex_rev)) \<and> set (items ex_rev) = set (items (snd (h5_root ex_file)))"
    by (auto simp: h5_root_def ex_file_def ex_rev_def)
  have e: "distinct (map fst (items (snd ([''a'', ''b''], GroupN [] []))))"
    by simp
  have i: "items (snd ([''a'', ''b''], GroupN [] [])) = []"
    by simp
  have gs: "sort (ls_groups (snd (h5_root ex_file))) = [''a'', ''g1'', ''my data'']"
    by code_simp
  have ds: "sort (ls_datasets (snd (h5_root ex_file))) = [''bad'', ''odd'']"
    by code_simp
  have l: "ls_dataset_line ex_file (h5_root ex_file) ''bad'' = LsDataset ''bad'' [2] ''object''"
    by code_simp
  have u: "ls_dataset_line ex_file (h5_root ex_file) ''odd''
             = LsUnreadable ''odd'' (TypeError ''no NumPy equivalent'')"
    by code_simp
  note root = ls_lists_groups_and_datasets [OF d, of ex_file ex_rev]
  note leaf = ls_lists_groups_and_datasets [OF e, of ex_file ex_rev]
  from root x have "print_ls ex_file (h5_root ex_file) =
              LsHeader (h5_name (fst (h5_root ex_file)))
              # map LsGroup (sort (ls_groups (snd (h5_root ex_file))))
              @ map (ls_dataset_line ex_file (h5_root ex_file))
                    (sort (ls_datasets (snd (h5_root ex_file))))"
    by blast
  with gs ds l u have 1: "print_ls ex_file (h5_root ex_file)
       = [LsHeader ''/'', LsGroup ''a'', LsGroup ''g1'', LsGroup ''my data'',
          LsDataset ''bad'' [2] ''object'',
          LsUnreadable ''odd'' (TypeError ''no NumPy equivalent'')]"
    by (simp add: h5_root_def h5_name_def)
  from root d' gs ds have 2: "sort (ls_groups ex_rev) = [''a'', ''g1'', ''my data'']"
    and 3: "sort (ls_datasets ex_rev) = [''bad'', ''odd'']"
    by simp_all
  from leaf i have "print_ls ex_file ([''a'', ''b''], GroupN [] [])
                      = [LsHeader (h5_name (fst ([''a'', ''b''], GroupN [] []))), LsEmpty]"
    by blast
  then have 4: "print_ls ex_file ([''a'', ''b''], GroupN [] []) = [LsHeader ''/a/b'', LsEmpty]"
    by (simp add: h5_name_def)
  from d x 1 d' 2 3 i 4 show ?thesis
    by blast
qed

text \<open>
  The claim as first stated fails: in the second example container the group \<open>types\<close>
  has one member, the committed datatype \<open>t\<close>; \<open>ls\<close> lists no name there, so the two
  sequences together do not hold the member names.
\<close>

theorem ls_leaves_out_other_members:
  "map fst (items (snd (current_group
       (loop ex_file2 ''y.h5'' (start ex_file2 ''y.h5'') [Line ''cd types''])))) = [''t'']
   \<and> sort (ls_groups (snd (current_group
       (loop ex_file2 ''y.h5'' (start ex_file2 ''y.h5'') [Line ''cd types''])))) = []
   \<and> sort (ls_datasets (snd (current_group
       (loop ex_file2 ''y.h5'' (start ex_file2 ''y.h5'') [Line ''cd types''])))) = []
   \<and> printed (loop ex_file2 ''y.h5'' (start ex_file2 ''y.h5'') [Line ''cd types'', Line ''ls''])
       = [Opened ''y.h5'', HelpHint, Prompt ''y.h5'' ''/'', Prompt ''y.h5'' ''/types'',
          LsHeader ''/types'', LsEmpty]"
  by code_simp

section \<open>The data preview\<close>

text \<open>
  Claim C5.  The dataset \<open>grid\<close> of the second example container holds an 11 by 11
  array, 121 elements.  The comment on line 75 says that with a threshold of 100 an array
  of more than 100 elements is folded.  \<open>cat grid\<close> prints all 121 elements and no
  marker: the printer folds only along an axis longer than twice the edge count, and no
  axis of this array is longer than 20.
\<close>

theorem cat_grid_not_folded:
  "printed (loop ex_file2 ''y.h5'' (start ex_file2 ''y.h5'') [Line ''cat grid''])
     = [Opened ''y.h5'', HelpHint, Prompt ''y.h5'' ''/'', DsHeader ''/grid'',
        DsShape [11, 11], DsDtype ''int64'', DsSize 121, DsChunks None, DsCompression None,
        DsDataHeader, DsData (Seq (replicate 11 (Seq (replicate 11 (Elem ''0''))))), DsEnd]
   \<and> show_data ex_grid_ds = ([DsData (preview ex_grid)], None)
   \<and> 100 < nd_size ex_grid
   \<and> \<not> has_dots (preview ex_grid)
   \<and> length (repr_elems (preview ex_grid)) = 121"
  by code_simp

section \<open>The argument of attrs\<close>

text \<open>
  Claim C7.  The root of the example container has the member \<open>my data\<close>.  The line
  \<open>attrs my data\<close> looks up \<open>my\<close>, the first word only, and reports that it was not
  found, while \<open>cd my data\<close> joins the words and enters the group.
\<close>

theorem attrs_takes_first_word:
  "child (root_node ex_file) ''my data'' = Some (GroupN [(''unit'', Inr ''m'')] [])
   \<and> printed (loop_body ex_file ''x.h5'' ex_session (Line ''attrs my data''))
       = [Opened ''x.h5'', HelpHint, Prompt ''x.h5'' ''/'', AttrsNotFound ''/'' ''my'']
   \<and> current_group (loop_body ex_file ''x.h5'' ex_session (Line ''cd my data''))
       = ([''my data''], GroupN [(''unit'', Inr ''m'')] [])"
  by code_simp

section \<open>Errors while a command runs\<close>

text \<open>
  Claim C2.  In the example container the data of \<open>bad\<close> cannot be read: reading
  raises \<open>TypeError\<close>.  On \<open>cat bad\<close> the handler of \<open>TypeError\<close> reads the data
  again, the second \<open>TypeError\<close> is caught nowhere, and the session ends with the
  exception: no message about the data is printed and the next line is never read.  The
  element type of \<open>odd\<close> cannot be read; \<open>ls\<close> reports that and goes on, \<open>cat odd\<close>
  ends the session in the same way.
\<close>

theorem cat_type_error_ends_session:
  "status (loop ex_file ''x.h5'' ex_session [Line ''cat bad'', Line ''pwd''])
     = ABORTED (TypeError ''no conversion path'')
   \<and> printed (loop ex_file ''x.h5'' ex_session [Line ''cat bad'', Line ''pwd''])
     = [Opened ''x.h5'', HelpHint, Prompt ''x.h5'' ''/'', DsHeader ''/bad'', DsShape [2],
        DsDtype ''object'', DsSize 2, DsChunks None, DsCompression None, DsDataHeader]
   \<and> status (loop ex_file ''x.h5'' ex_session [Line ''ls'']) = ACTIVE
   \<and> status (loop ex_file ''x.h5'' ex_session [Line ''cat odd'', Line ''pwd''])
     = ABORTED (TypeError ''no NumPy equivalent'')
   \<and> printed (loop ex_file ''x.h5'' ex_session [Line ''cat odd'', Line ''pwd''])
     = [Opened ''x.h5'', HelpHint, Prompt ''x.h5'' ''/'', DsHeader ''/odd'', DsShape [3]]"
  by code_simp

section \<open>Closing the file\<close>

text \<open>
  Claim C3.  On the same inputs the exception leaves \<open>browse_hdf5\<close> before line 206 is
  reached: the run has ended and the file is still open.
\<close>

theorem handle_left_open:
  "browse_hdf5 (Inr ex_file) ''dir/x.h5'' ''x.h5'' [Line ''cat bad'']
     = Inr \<lparr>current_group = h5_root ex_file,
            printed = [Opened ''x.h5'', HelpHint, Prompt ''x.h5'' ''/'', DsHeader ''/bad'',
                       DsShape [2], DsDtype ''object'', DsSize 2, DsChunks None,
                       DsCompression None, DsDataHeader],
            status = ABORTED (TypeError ''no conversion path''),
            fhandle = Open\<rparr>
   \<and> browse_hdf5 (Inr ex_file) ''dir/x.h5'' ''x.h5'' [Line ''cat odd'']
     = Inr \<lparr>current_group = h5_root ex_file,
            printed = [Opened ''x.h5'', HelpHint, Prompt ''x.h5'' ''/'', DsHeader ''/odd'',
                       DsShape [3]],
            status = ABORTED (TypeError ''no NumPy equivalent''),
            fhandle = Open\<rparr>"
  by code_simp

end
